theory Spec2Isabelle
  imports Main
begin

section \<open>Data model\<close>

text \<open>
  A feed item as \<open>processBatch\<close> reads it (\<open>item.guid\<close>, \<open>item.title\<close>,
  \<open>item.content\<close>, \<open>item.isoDate\<close>), and the argument object it builds for the
  stored procedure \<open>upsert_service_event\<close>.
\<close>

record feed_item =
  guid :: string
  title :: string
  content :: string
  isoDate :: string

record rpc_args =
  p_service_id :: nat
  p_guid :: string
  p_title :: string
  p_description :: string
  p_pub_date :: string

text \<open>
  The datastore client does not throw: a call settles with an error descriptor
  (\<open>Inl\<close>) or with the identifier of the affected row (\<open>Inr\<close>).
\<close>

type_synonym rpc_result = "string + nat"

text \<open>
  A row of the table \<open>service_events\<close>; the last four columns are the structured fields.
  Identifiers are natural numbers; nothing below depends on their size or on how they
  are printed.
\<close>

record event_row =
  event_id :: nat
  service_id :: nat
  event_guid :: string
  event_title :: string
  description :: string
  pub_date :: string
  status :: "string option"
  translated_description :: "string option"
  accumulated_time_minutes :: "int option"
  severity :: "string option"

text \<open>A row of the table \<open>services\<close> as the handler selects it (\<open>id, feed_url\<close>).\<close>

record service =
  service_ident :: nat
  feed_url :: string

text \<open>
  The value \<open>JSON.parse\<close> returns. Numbers are kept integral, as the one numeric
  field of the schema is; only \<open>0\<close> is falsy among them.
\<close>

datatype json =
    JNull
  | JBool bool
  | JNum int
  | JStr string
  | JArr "json list"
  | JObj "(string \<times> json) list"

type_synonym fields = "(string \<times> json) list"

text \<open>
  What the program does to the outside: requests to the stored procedure (issued, then
  settled), calls of the language model, updates of \<open>service_events\<close>, and the console
  lines that name an event.
\<close>

datatype effect =
    Rpc_sent rpc_args
  | Rpc_settled rpc_args rpc_result
  | Llm_request string
  | Db_update fields nat
  | Logged_summarized nat
  | Logged_event_error nat
  | Logged_error

record world =
  service_events :: "event_row list"
  trace :: "effect list"

type_synonym rpc = "rpc_args \<Rightarrow> event_row list \<Rightarrow> rpc_result \<times> event_row list"

text \<open>
  The collaborators, which \<open>index.js\<close> reaches through its module-level bindings
  \<open>supabase\<close>, \<open>anthropic\<close> and \<open>parser\<close> and through \<open>JSON.parse\<close>:
  \<^item> \<open>llm d\<close>: the texts of the content blocks of the completion for the user text \<open>d\<close>,
    \<open>None\<close> when the call rejects;
  \<^item> \<open>JSON_parse t\<close>: the parsed value, \<open>None\<close> when \<open>JSON.parse\<close> throws;
  \<^item> \<open>db_write fs r\<close>: the row \<open>r\<close> with the columns \<open>fs\<close> written, \<open>None\<close> when the
    datastore rejects the write;
  \<^item> \<open>parseURL u\<close>: the items of the feed at \<open>u\<close>, \<open>None\<close> when fetching or parsing
    rejects;
  \<^item> \<open>rpc\<close>: the stored procedure \<open>upsert_service_event\<close> acting on the table.
\<close>

record env =
  llm :: "string \<Rightarrow> string list option"
  JSON_parse :: "string \<Rightarrow> json option"
  db_write :: "fields \<Rightarrow> event_row \<Rightarrow> event_row option"
  parseURL :: "string \<Rightarrow> feed_item list option"
  rpc :: rpc

text \<open>
  What a request handler leaves behind: a response sent on \<open>res\<close>, with its status and
  its body, or a \<open>Response\<close> object handed back to the framework, which ignores a
  handler's return value, so that nothing is sent on \<open>res\<close>. The body of
  \<open>Sent_with_id s t n\<close> is the text \<open>t\<close> followed by the identifier \<open>n\<close> as the
  template literal prints it.
\<close>

datatype handler_result =
    Sent nat string
  | Sent_with_id nat string nat
  | Returned_Response string

section \<open>Values of the language\<close>

definition digit :: "nat \<Rightarrow> char" where
  "digit d = ''0123456789'' ! d"

text \<open>
  The decimal text of a non-negative integer below \<open>10^21\<close>, as a template literal
  and a property name have it; it is used for the length of an array and for the
  indices of an array or a string.
\<close>

function show_nat :: "nat \<Rightarrow> string" where
  "show_nat n = (if n < 10 then [digit n] else show_nat (n div 10) @ [digit (n mod 10)])"
  by pat_completeness auto
termination
  by (relation "measure (\<lambda>n. n)") auto

declare show_nat.simps [simp del]

text \<open>\<open>!res\<close> is false exactly on the truthy values.\<close>

fun truthy :: "json \<Rightarrow> bool" where
  "truthy JNull = False"
| "truthy (JBool b) = b"
| "truthy (JNum n) = (n \<noteq> 0)"
| "truthy (JStr s) = (s \<noteq> [])"
| "truthy (JArr xs) = True"
| "truthy (JObj kvs) = True"

text \<open>
  \<open>{ ...res }\<close>: the own enumerable properties of the value. An object gives its
  members, an array and a string give their elements under their indices, and
  a number or a boolean gives none.
\<close>

fun spread :: "json \<Rightarrow> fields" where
  "spread (JObj kvs) = kvs"
| "spread (JArr xs) = zip (map show_nat [0..<length xs]) xs"
| "spread (JStr s) = zip (map show_nat [0..<length s]) (map (\<lambda>c. JStr [c]) s)"
| "spread v = []"

section \<open>The module \<open>utils.js\<close>\<close>

text \<open>
  \<open>utils.js\<close> imports nothing and declares its two functions only. The clients
  \<open>supabase\<close> and \<open>anthropic\<close> are constants of the module \<open>index.js\<close>, which
  another module does not see: in \<open>utils.js\<close> the identifier \<open>anthropic\<close> in
  \<open>processEvent\<close> and the identifier \<open>supabase\<close> in \<open>processBatch\<close> are not
  declared, and evaluating either throws a ReferenceError. (\<open>processEvent\<close> has a
  parameter \<open>supabase\<close>.)
\<close>

definition utils_declares :: "string \<Rightarrow> bool" where
  "utils_declares x = (x \<in> set [''processBatch'', ''processEvent''])"

section \<open>Batched ingestion: \<open>processBatch\<close>\<close>

definition upsert_call :: "nat \<Rightarrow> feed_item \<Rightarrow> rpc_args" where
  "upsert_call serviceId item =
     \<lparr>p_service_id = serviceId, p_guid = guid item, p_title = title item,
      p_description = content item, p_pub_date = isoDate item\<rparr>"

text \<open>
  \<open>await Promise.all(batchPromises)\<close>: every request of the group settles, and the
  results come back in the order of the group. The requests of one group are in flight
  together; the datastore is taken to serve them in the order of the group.
\<close>

fun settle_all :: "rpc \<Rightarrow> rpc_args list \<Rightarrow> world \<Rightarrow> rpc_result list \<times> world" where
  "settle_all f [] w = ([], w)"
| "settle_all f (a # as) w =
     (case f a (service_events w) of
        (r, tbl) \<Rightarrow>
          (case settle_all f as (w\<lparr>service_events := tbl, trace := trace w @ [Rpc_settled a r]\<rparr>) of
             (rs, w') \<Rightarrow> (r # rs, w')))"

text \<open>One turn of the loop body: \<open>batch.map\<close> issues every request of the group, then the group is awaited.\<close>

definition run_batch :: "rpc \<Rightarrow> nat \<Rightarrow> feed_item list \<Rightarrow> world \<Rightarrow> rpc_result list \<times> world" where
  "run_batch f serviceId batch w =
     (let batchPromises = map (upsert_call serviceId) batch
      in settle_all f batchPromises (w\<lparr>trace := trace w @ map Rpc_sent batchPromises\<rparr>))"

text \<open>
  The \<open>for\<close> loop of \<open>processBatch\<close> in the single-file version of the program,
  where \<open>supabase\<close> is the client of the module, with \<open>items.slice(i, i + batchSize)\<close> as
  \<open>take batchSize (drop i items)\<close>. Nothing in the loop bounds \<open>batchSize\<close> from below,
  so the loop need not end: \<open>None\<close> is the run that never returns.
\<close>

partial_function (option) processBatch_loop ::
  "rpc \<Rightarrow> nat \<Rightarrow> feed_item list \<Rightarrow> nat \<Rightarrow> nat \<Rightarrow> rpc_result list \<Rightarrow> world
     \<Rightarrow> (rpc_result list \<times> world) option" where
  "processBatch_loop f serviceId items batchSize i results w =
     (if i < length items then
        (case run_batch f serviceId (take batchSize (drop i items)) w of
           (batchResults, w') \<Rightarrow>
             processBatch_loop f serviceId items batchSize (i + batchSize) (results @ batchResults) w')
      else Some (results, w))"

declare processBatch_loop.simps [code]

record batch_report =
  serviceId :: nat
  results :: "rpc_result list"

definition processBatch ::
  "rpc \<Rightarrow> nat \<Rightarrow> feed_item list \<Rightarrow> nat \<Rightarrow> world \<Rightarrow> (batch_report \<times> world) option" where
  "processBatch f sid items batchSize w =
     (case processBatch_loop f sid items batchSize 0 [] w of
        None \<Rightarrow> None
      | Some (rs, w') \<Rightarrow> Some (\<lparr>serviceId = sid, results = rs\<rparr>, w'))"

text \<open>
  \<open>processBatch\<close> of \<open>utils.js\<close>, the one \<open>index.js\<close> imports. Its text is the
  same, but the callback of \<open>batch.map\<close> evaluates \<open>supabase\<close>, which the module does
  not declare: on the first item of a group the callback throws, before any request is
  built, and the promise of \<open>processBatch\<close> is rejected (\<open>Inl\<close>, with the message of
  the error). A group without items calls no callback.
\<close>

partial_function (option) utils_processBatch_loop ::
  "rpc \<Rightarrow> nat \<Rightarrow> feed_item list \<Rightarrow> nat \<Rightarrow> nat \<Rightarrow> rpc_result list \<Rightarrow> world
     \<Rightarrow> ((string + rpc_result list) \<times> world) option" where
  "utils_processBatch_loop f sid items batchSize i collected w =
     (if i < length items then
        (if take batchSize (drop i items) \<noteq> [] \<and> \<not> utils_declares ''supabase''
         then Some (Inl ''supabase is not defined'', w)
         else
           (case run_batch f sid (take batchSize (drop i items)) w of
              (batchResults, w') \<Rightarrow>
                utils_processBatch_loop f sid items batchSize (i + batchSize)
                  (collected @ batchResults) w'))
      else Some (Inr collected, w))"

declare utils_processBatch_loop.simps [code]

definition utils_processBatch ::
  "rpc \<Rightarrow> nat \<Rightarrow> feed_item list \<Rightarrow> nat \<Rightarrow> world \<Rightarrow> ((string + batch_report) \<times> world) option" where
  "utils_processBatch f sid items batchSize w =
     (case utils_processBatch_loop f sid items batchSize 0 [] w of
        None \<Rightarrow> None
      | Some (Inl err, w') \<Rightarrow> Some (Inl err, w')
      | Some (Inr rs, w') \<Rightarrow> Some (Inr \<lparr>serviceId = sid, results = rs\<rparr>, w'))"

section \<open>Event summarizer: \<open>processEvent\<close> and \<open>POST /summarize-event\<close>\<close>

text \<open>
  \<open>.update(fs).eq("id", eid)\<close>: the rows whose identifier is \<open>eid\<close> are written, the
  others are kept; the statement fails as a whole when the datastore rejects a write.
\<close>

fun update_rows :: "(event_row \<Rightarrow> event_row option) \<Rightarrow> nat \<Rightarrow> event_row list \<Rightarrow> event_row list option" where
  "update_rows wr eid [] = Some []"
| "update_rows wr eid (r # rs) =
     (if event_id r = eid then
        (case wr r of
           None \<Rightarrow> None
         | Some r' \<Rightarrow> map_option ((#) r') (update_rows wr eid rs))
      else map_option ((#) r) (update_rows wr eid rs))"

definition db_update :: "env \<Rightarrow> fields \<Rightarrow> nat \<Rightarrow> world \<Rightarrow> string option \<times> world" where
  "db_update e fs eid w =
     (let w1 = w\<lparr>trace := trace w @ [Db_update fs eid]\<rparr>
      in case update_rows (db_write e fs) eid (service_events w1) of
           None \<Rightarrow> (Some ''update rejected'', w1)
         | Some tbl \<Rightarrow> (None, w1\<lparr>service_events := tbl\<rparr>))"

text \<open>The \<open>catch\<close> block of \<open>processEvent\<close>: the error is logged with the event's identifier and a new error is thrown.\<close>

definition reject_event :: "event_row \<Rightarrow> world \<Rightarrow> (string + unit) \<times> world" where
  "reject_event event w =
     (Inl ''Error processing event'', w\<lparr>trace := trace w @ [Logged_event_error (event_id event)]\<rparr>)"

text \<open>
  \<open>processEvent(event, supabase)\<close> of \<open>utils.js\<close>. The promise it returns is
  fulfilled (\<open>Inr ()\<close>) or rejected with the error of the \<open>catch\<close> block (\<open>Inl\<close>).
  The \<open>try\<close> block begins by evaluating \<open>anthropic\<close>, which the module does not
  declare: the ReferenceError is caught before any request is made, and the rest of the
  block is not reached. \<open>msg.content[0].text\<close> throws when the completion has no
  content block.
\<close>

definition processEvent :: "env \<Rightarrow> event_row \<Rightarrow> world \<Rightarrow> (string + unit) \<times> world" where
  "processEvent e event w =
     (if \<not> utils_declares ''anthropic'' then reject_event event w
      else
        (let w1 = w\<lparr>trace := trace w @ [Llm_request (description event)]\<rparr>
         in case llm e (description event) of
              None \<Rightarrow> reject_event event w1
            | Some msg_content \<Rightarrow>
                (case msg_content of
                   [] \<Rightarrow> reject_event event w1
                 | text # _ \<Rightarrow>
                     (case JSON_parse e text of
                        None \<Rightarrow> reject_event event w1
                      | Some res \<Rightarrow>
                          if \<not> truthy res then reject_event event w1
                          else
                            (case db_update e (spread res) (event_id event) w1 of
                               (Some upsertError, w2) \<Rightarrow> reject_event event w2
                             | (None, w2) \<Rightarrow>
                                 (Inr (), w2\<lparr>trace := trace w2 @ [Logged_summarized (event_id event)]\<rparr>))))))"

text \<open>The \<open>catch\<close> block of the handler of \<open>POST /summarize-event\<close>.\<close>

definition fail_summarize :: "nat \<Rightarrow> world \<Rightarrow> handler_result \<times> world" where
  "fail_summarize eventId w =
     (Sent_with_id 500 ''Error: Unable to summarize '' eventId, w\<lparr>trace := trace w @ [Logged_error]\<rparr>)"

text \<open>
  The handler of \<open>POST /summarize-event\<close>, in \<open>index.js\<close>, where \<open>supabase\<close> and
  \<open>anthropic\<close> are the clients of the module. \<open>eventError\<close> is the error the select
  reports, if any; without one, \<open>eventData\<close> holds the rows whose identifier is
  \<open>eventId\<close>.
\<close>

definition summarize_event :: "env \<Rightarrow> string option \<Rightarrow> nat \<Rightarrow> world \<Rightarrow> handler_result \<times> world" where
  "summarize_event e eventError eventId w =
     (case eventError of
        Some m \<Rightarrow> fail_summarize eventId w
      | None \<Rightarrow>
          (case filter (\<lambda>r. event_id r = eventId) (service_events w) of
             [] \<Rightarrow> fail_summarize eventId w
           | ev # _ \<Rightarrow>
               (let w1 = w\<lparr>trace := trace w @ [Llm_request (description ev)]\<rparr>
                in case llm e (description ev) of
                     None \<Rightarrow> fail_summarize eventId w1
                   | Some msg_content \<Rightarrow>
                       (case msg_content of
                          [] \<Rightarrow> fail_summarize eventId w1
                        | text # _ \<Rightarrow>
                            (case JSON_parse e text of
                               None \<Rightarrow> fail_summarize eventId w1
                             | Some result \<Rightarrow>
                                 if \<not> truthy result then fail_summarize eventId w1
                                 else
                                   (case db_update e (spread result) eventId w1 of
                                      (Some upsertError, w2) \<Rightarrow> fail_summarize eventId w2
                                    | (None, w2) \<Rightarrow>
                                        (Sent_with_id 200 ''Successfully summarized event '' eventId,
                                         w2\<lparr>trace := trace w2 @ [Logged_summarized eventId]\<rparr>)))))))"

section \<open>Bulk summarization: \<open>POST /process-events\<close>\<close>

definition BATCH_SIZE :: nat where
  "BATCH_SIZE = 10"

text \<open>
  \<open>batch.map((event) => processEvent(event, supabase))\<close>: \<open>processEvent\<close> is called on
  every event of the group, in the order of the group, and every call runs to its end
  whatever the others do. A call that throws before its first \<open>await\<close>, as every call
  does while \<open>anthropic\<close> is not declared, has left its \<open>catch\<close> block when the next
  call begins.
\<close>

fun run_events :: "env \<Rightarrow> event_row list \<Rightarrow> world \<Rightarrow> (string + unit) list \<times> world" where
  "run_events e [] w = ([], w)"
| "run_events e (ev # evs) w =
     (case processEvent e ev w of
        (out, w1) \<Rightarrow>
          (case run_events e evs w1 of
             (outs, w2) \<Rightarrow> (out # outs, w2)))"

text \<open>
  The \<open>for\<close> loop of the handler. \<open>await Promise.all(...)\<close> throws when one of the
  promises of the group is rejected, which leaves the loop.
\<close>

function process_events_loop :: "env \<Rightarrow> event_row list \<Rightarrow> nat \<Rightarrow> world \<Rightarrow> (string + unit) \<times> world" where
  "process_events_loop e events i w =
     (if i < length events then
        (case run_events e (take BATCH_SIZE (drop i events)) w of
           (outs, w') \<Rightarrow>
             (case filter isl outs of
                [] \<Rightarrow> process_events_loop e events (i + BATCH_SIZE) w'
              | rejected # _ \<Rightarrow> (Inl (projl rejected), w')))
      else (Inr (), w))"
  by pat_completeness auto
termination
  by (relation "measure (\<lambda>(e, events, i, w). length events - i)") (auto simp: BATCH_SIZE_def)

declare process_events_loop.simps [simp del]

text \<open>
  The handler of \<open>POST /process-events\<close>. \<open>fetchError\<close> is the error the select
  reports, if any; without one, \<open>events\<close> are the rows whose \<open>translated_description\<close>
  is null. On success the handler returns a \<open>Response\<close> object and does not use \<open>res\<close>.
\<close>

definition process_events :: "env \<Rightarrow> string option \<Rightarrow> world \<Rightarrow> handler_result \<times> world" where
  "process_events e fetchError w =
     (case fetchError of
        Some m \<Rightarrow>
          (Sent 500 ''Error while processing the events'', w\<lparr>trace := trace w @ [Logged_error]\<rparr>)
      | None \<Rightarrow>
          (let events = filter (\<lambda>r. translated_description r = None) (service_events w)
           in case process_events_loop e events 0 w of
                (Inl err, w') \<Rightarrow>
                  (Sent 500 ''Error while processing the events'', w'\<lparr>trace := trace w' @ [Logged_error]\<rparr>)
              | (Inr u, w') \<Rightarrow>
                  (Returned_Response (''Successfully processed '' @ show_nat (length events) @ '' events''), w')))"

section \<open>Feed fan-out: \<open>POST /process-feeds\<close>\<close>

text \<open>
  \<open>parser.parseURL(service.feed_url).then((result) => ({ ...result, serviceId: service.id }))\<close>
  for every service.
\<close>

definition fetch_feeds :: "env \<Rightarrow> service list \<Rightarrow> (nat \<times> feed_item list) option list" where
  "fetch_feeds e serviceData =
     map (\<lambda>s. map_option (Pair (service_ident s)) (parseURL e (feed_url s))) serviceData"

text \<open>
  \<open>serviceResults.map((service) => processBatch(service.serviceId, service.items, batchSize))\<close>
  with the \<open>processBatch\<close> that \<open>index.js\<close> imports from \<open>utils.js\<close>, in the order
  of the services. A call that throws before its first \<open>await\<close>, or returns without
  one, has ended when the next call begins; so it is with every call while \<open>supabase\<close>
  is not declared in \<open>utils.js\<close>.
\<close>

fun run_services ::
  "rpc \<Rightarrow> nat \<Rightarrow> (nat \<times> feed_item list) list \<Rightarrow> world
     \<Rightarrow> ((string + batch_report) list \<times> world) option" where
  "run_services f batchSize [] w = Some ([], w)"
| "run_services f batchSize ((sid, items) # rest) w =
     (case utils_processBatch f sid items batchSize w of
        None \<Rightarrow> None
      | Some (out, w1) \<Rightarrow>
          (case run_services f batchSize rest w1 of
             None \<Rightarrow> None
           | Some (outs, w2) \<Rightarrow> Some (out # outs, w2)))"

text \<open>
  The handler of \<open>POST /process-feeds\<close> in \<open>index.js\<close>. The select of the services
  gives an error (\<open>Inl\<close>) or the rows (\<open>Inr\<close>). \<open>Promise.all(servicePromises)\<close> is
  \<open>those\<close>: it is rejected as soon as one feed is, and so is
  \<open>Promise.all(allProcessingPromises)\<close> when a call of \<open>processBatch\<close> is; both lead
  to the \<open>catch\<close> block. \<open>None\<close> is the handler that never answers. The handler of
  the single-file version has the same text up to the call of its own \<open>processBatch\<close>.
\<close>

definition process_feeds :: "env \<Rightarrow> string + service list \<Rightarrow> world \<Rightarrow> (handler_result \<times> world) option" where
  "process_feeds e selected w =
     (case selected of
        Inl serviceError \<Rightarrow>
          Some (Sent 500 ''Error while processing the feeds'', w\<lparr>trace := trace w @ [Logged_error]\<rparr>)
      | Inr serviceData \<Rightarrow>
          (case those (fetch_feeds e serviceData) of
             None \<Rightarrow>
               Some (Sent 500 ''Error while processing the feeds'', w\<lparr>trace := trace w @ [Logged_error]\<rparr>)
           | Some serviceResults \<Rightarrow>
               (let batchSize = 10
                in case run_services (rpc e) batchSize serviceResults w of
                     None \<Rightarrow> None
                   | Some (allResults, w') \<Rightarrow>
                       (case filter isl allResults of
                          [] \<Rightarrow> Some (Sent 200 ''Successfully parsed RSS feeds and items'', w')
                        | rejected # _ \<Rightarrow>
                            Some (Sent 500 ''Error while processing the feeds'',
                                  w'\<lparr>trace := trace w' @ [Logged_error]\<rparr>)))))"

section \<open>Notions the properties of the batches are stated with\<close>

text \<open>
  Upserting every call of a list, one after the other and whatever the outcomes: the
  outcomes in the order of the calls, and the table afterwards.
\<close>

fun upsert_each :: "rpc \<Rightarrow> rpc_args list \<Rightarrow> event_row list \<Rightarrow> rpc_result list \<times> event_row list" where
  "upsert_each f [] tbl = ([], tbl)"
| "upsert_each f (a # as) tbl =
     (case f a tbl of
        (r, tbl1) \<Rightarrow>
          (case upsert_each f as tbl1 of
             (rs, tbl2) \<Rightarrow> (r # rs, tbl2)))"

text \<open>Consecutive groups of at most \<open>n\<close> elements, in the original order.\<close>

function chunks :: "nat \<Rightarrow> 'a list \<Rightarrow> 'a list list" where
  "chunks n xs = (if n = 0 \<or> xs = [] then [] else take n xs # chunks n (drop n xs))"
  by pat_completeness auto
termination
  by (relation "measure (\<lambda>(n, xs). length xs)") auto

declare chunks.simps [simp del]

text \<open>
  The requests of a trace without their results, what a group leaves in it, and the number
  of requests in flight after a trace: issued and not yet settled.
\<close>

datatype rpc_event = Issue rpc_args | Settle rpc_args

fun rpc_events :: "effect list \<Rightarrow> rpc_event list" where
  "rpc_events [] = []"
| "rpc_events (Rpc_sent a # t) = Issue a # rpc_events t"
| "rpc_events (Rpc_settled a r # t) = Settle a # rpc_events t"
| "rpc_events (x # t) = rpc_events t"

definition group_events :: "nat \<Rightarrow> feed_item list \<Rightarrow> rpc_event list" where
  "group_events sid g = map Issue (map (upsert_call sid) g) @ map Settle (map (upsert_call sid) g)"

fun in_flight :: "effect list \<Rightarrow> int" where
  "in_flight [] = 0"
| "in_flight (Rpc_sent a # t) = in_flight t + 1"
| "in_flight (Rpc_settled a r # t) = in_flight t - 1"
| "in_flight (x # t) = in_flight t"

text \<open>The trace and the state a list of groups leaves behind when each is issued and then awaited.\<close>

definition settled_block :: "rpc \<Rightarrow> rpc_args list \<Rightarrow> event_row list \<Rightarrow> effect list" where
  "settled_block f cs tbl = map (\<lambda>(a, r). Rpc_settled a r) (zip cs (fst (upsert_each f cs tbl)))"

fun groups_trace :: "rpc \<Rightarrow> nat \<Rightarrow> feed_item list list \<Rightarrow> event_row list \<Rightarrow> effect list" where
  "groups_trace f sid [] tbl = []"
| "groups_trace f sid (g # gs) tbl =
     map Rpc_sent (map (upsert_call sid) g) @ settled_block f (map (upsert_call sid) g) tbl
       @ groups_trace f sid gs (snd (upsert_each f (map (upsert_call sid) g) tbl))"

definition after_groups :: "rpc \<Rightarrow> nat \<Rightarrow> feed_item list list \<Rightarrow> world \<Rightarrow> rpc_result list \<times> world" where
  "after_groups f sid gs w =
     (fst (upsert_each f (map (upsert_call sid) (concat gs)) (service_events w)),
      \<lparr>service_events = snd (upsert_each f (map (upsert_call sid) (concat gs)) (service_events w)),
       trace = trace w @ groups_trace f sid gs (service_events w)\<rparr>)"

text \<open>The requests issued in a trace.\<close>

fun sent_calls :: "effect list \<Rightarrow> rpc_args list" where
  "sent_calls [] = []"
| "sent_calls (Rpc_sent a # t) = a # sent_calls t"
| "sent_calls (x # t) = sent_calls t"

section \<open>Notions the properties of the summarizer are stated with\<close>

text \<open>
  The value both summarizers go on with: the parsed first content block of the
  completion, when the call succeeds, the block exists, it parses and the value is truthy.
\<close>

definition usable_reply :: "env \<Rightarrow> string \<Rightarrow> json option" where
  "usable_reply e d =
     (case llm e d of
        None \<Rightarrow> None
      | Some msg_content \<Rightarrow>
          (case msg_content of
             [] \<Rightarrow> None
           | text # _ \<Rightarrow>
               (case JSON_parse e text of
                  None \<Rightarrow> None
                | Some v \<Rightarrow> if truthy v then Some v else None)))"

text \<open>The calls of the language model and the updates of the datastore in a trace.\<close>

fun llm_requests :: "effect list \<Rightarrow> string list" where
  "llm_requests [] = []"
| "llm_requests (Llm_request d # t) = d # llm_requests t"
| "llm_requests (x # t) = llm_requests t"

fun db_updates :: "effect list \<Rightarrow> (fields \<times> nat) list" where
  "db_updates [] = []"
| "db_updates (Db_update fs eid # t) = (fs, eid) # db_updates t"
| "db_updates (x # t) = db_updates t"

text \<open>
  From \<open>w\<close> to \<open>w'\<close> the trace grows by exactly one call of the language model and at
  most one update, which is aimed at the identifier \<open>eid\<close>, and every row with
  another identifier is as it was.
\<close>

definition confined_to :: "nat \<Rightarrow> world \<Rightarrow> world \<Rightarrow> bool" where
  "confined_to eid w w' =
     (let tr = drop (length (trace w)) (trace w')
      in take (length (trace w)) (trace w') = trace w
         \<and> length (llm_requests tr) = 1
         \<and> length (db_updates tr) \<le> 1
         \<and> list_all (\<lambda>u. snd u = eid) (db_updates tr)
         \<and> list_all2 (\<lambda>r r'. event_id r \<noteq> eid \<longrightarrow> r' = r) (service_events w) (service_events w'))"

section \<open>The stored procedure \<open>upsert_service_event\<close>\<close>

text \<open>The natural key of a row, and the identifier the datastore gives a new row.\<close>

definition same_key :: "rpc_args \<Rightarrow> event_row \<Rightarrow> bool" where
  "same_key a r = (service_id r = p_service_id a \<and> event_guid r = p_guid a)"

definition fresh_id :: "event_row list \<Rightarrow> nat" where
  "fresh_id tbl = Suc (fold max (map event_id tbl) 0)"

text \<open>
  Modelled from the spec: the stored procedure \<open>upsert_service_event\<close> lives in the
  datastore and is not among the sources. The spec gives its contract: the guid must be
  non-empty and the service must exist (\<open>known\<close> lists the identifiers of the
  services); a new row is inserted if no row exists for (service, guid), with an
  identifier assigned by the datastore and null structured fields; otherwise the title,
  the description and the publish timestamp of the existing row are updated and its
  structured fields are left untouched; the result is the affected row's identifier or
  an error descriptor.
\<close>

definition upsert_service_event :: "nat list \<Rightarrow> rpc" where
  "upsert_service_event known a tbl =
     (if p_guid a = [] \<or> p_service_id a \<notin> set known then (Inl ''invalid input'', tbl)
      else
        (case filter (same_key a) tbl of
           [] \<Rightarrow>
             (Inr (fresh_id tbl),
              tbl @ [\<lparr>event_id = fresh_id tbl, service_id = p_service_id a, event_guid = p_guid a,
                      event_title = p_title a, description = p_description a, pub_date = p_pub_date a,
                      status = None, translated_description = None,
                      accumulated_time_minutes = None, severity = None\<rparr>])
         | r0 # _ \<Rightarrow>
             (Inr (event_id r0),
              map (\<lambda>r. if same_key a r
                        then r\<lparr>event_title := p_title a, description := p_description a,
                               pub_date := p_pub_date a\<rparr>
                        else r) tbl)))"

text \<open>
  The structured fields of a row, and what the stored procedure does to a row that exists:
  it writes the title, the description and the publish timestamp.
\<close>

definition structured :: "event_row \<Rightarrow> string option \<times> string option \<times> int option \<times> string option" where
  "structured r = (status r, translated_description r, accumulated_time_minutes r, severity r)"

definition refresh :: "rpc_args \<Rightarrow> event_row \<Rightarrow> event_row" where
  "refresh a r = r\<lparr>event_title := p_title a, description := p_description a, pub_date := p_pub_date a\<rparr>"

section \<open>Concrete collaborators\<close>

text \<open>
  Modelled from the spec: how the datastore writes the structured columns of a row of
  \<open>service_events\<close>, whose table definition is not among the sources. \<open>status\<close>,
  \<open>translated_description\<close> and \<open>severity\<close> take a text or null,
  \<open>accumulated_time_minutes\<close> an integer or null. The other columns are not written
  by the inputs used here: a write to another name, or of a value of another type, is
  rejected.
\<close>

definition set_column :: "string \<times> json \<Rightarrow> event_row \<Rightarrow> event_row option" where
  "set_column kv r =
     (case kv of
        (k, v) \<Rightarrow>
          if k = ''status'' then
            (case v of
               JNull \<Rightarrow> Some (r\<lparr>status := None\<rparr>)
             | JStr s \<Rightarrow> Some (r\<lparr>status := Some s\<rparr>)
             | _ \<Rightarrow> None)
          else if k = ''translated_description'' then
            (case v of
               JNull \<Rightarrow> Some (r\<lparr>translated_description := None\<rparr>)
             | JStr s \<Rightarrow> Some (r\<lparr>translated_description := Some s\<rparr>)
             | _ \<Rightarrow> None)
          else if k = ''accumulated_time_minutes'' then
            (case v of
               JNull \<Rightarrow> Some (r\<lparr>accumulated_time_minutes := None\<rparr>)
             | JNum n \<Rightarrow> Some (r\<lparr>accumulated_time_minutes := Some n\<rparr>)
             | _ \<Rightarrow> None)
          else if k = ''severity'' then
            (case v of
               JNull \<Rightarrow> Some (r\<lparr>severity := None\<rparr>)
             | JStr s \<Rightarrow> Some (r\<lparr>severity := Some s\<rparr>)
             | _ \<Rightarrow> None)
          else None)"

fun write_columns :: "fields \<Rightarrow> event_row \<Rightarrow> event_row option" where
  "write_columns [] r = Some r"
| "write_columns (kv # kvs) r =
     (case set_column kv r of
        None \<Rightarrow> None
      | Some r' \<Rightarrow> write_columns kvs r')"

text \<open>
  A language model, a parser of its replies, a feed source and a datastore to run the
  handlers on.
\<close>

definition full_reply :: string where
  \<open>full_reply = ''{"status":"resolved","translated_description":"<p>Resolved</p>","accumulated_time_minutes":5,"severity":"minor"}''\<close>

definition partial_reply :: string where
  \<open>partial_reply = ''{"status":"resolved"}''\<close>

definition sample_llm :: "string \<Rightarrow> string list option" where
  "sample_llm d =
     (if d = [] \<or> d = ''unreachable'' then None
      else if d = ''partial'' then Some [partial_reply]
      else if d = ''prose'' then Some [''The incident is resolved.'']
      else if d = ''nothing'' then Some [''null'']
      else Some [full_reply])"

definition sample_parse :: "string \<Rightarrow> json option" where
  "sample_parse t =
     (if t = full_reply then
        Some (JObj [(''status'', JStr ''resolved''), (''translated_description'', JStr ''<p>Resolved</p>''),
                    (''accumulated_time_minutes'', JNum 5), (''severity'', JStr ''minor'')])
      else if t = partial_reply then Some (JObj [(''status'', JStr ''resolved'')])
      else if t = ''null'' then Some JNull
      else None)"

definition item_of :: "string \<Rightarrow> feed_item" where
  "item_of g = \<lparr>guid = g, title = ''Incident'', content = ''<p>down</p>'', isoDate = ''2024-07-19T14:29:00Z''\<rparr>"

definition sample_feed :: "string \<Rightarrow> feed_item list option" where
  "sample_feed u =
     (if u = ''https://a.example/rss'' then Some [item_of ''g1'']
      else if u = ''https://c.example/rss'' then Some [item_of ''g3'']
      else None)"

definition sample_env :: env where
  "sample_env =
     \<lparr>llm = sample_llm, JSON_parse = sample_parse, db_write = write_columns,
      parseURL = sample_feed, rpc = upsert_service_event [1, 2, 3]\<rparr>"

section \<open>Concrete inputs\<close>

definition world0 :: world where
  "world0 = \<lparr>service_events = [], trace = []\<rparr>"

definition five_items :: "feed_item list" where
  "five_items = [item_of ''g1'', item_of ''g2'', item_of ''g3'', item_of ''g4'', item_of ''g5'']"

definition event_of :: "nat \<Rightarrow> string \<Rightarrow> event_row" where
  "event_of n d =
     \<lparr>event_id = n, service_id = 1, event_guid = show_nat n, event_title = ''Incident'',
      description = d, pub_date = ''2024-07-19T14:29:00Z'', status = None,
      translated_description = None, accumulated_time_minutes = None, severity = None\<rparr>"

definition two_rows :: world where
  "two_rows = \<lparr>service_events = [event_of 1 ''<p>down</p>'', event_of 2 ''<p>slow</p>''], trace = []\<rparr>"

definition partial_row :: world where
  "partial_row = \<lparr>service_events = [event_of 1 ''partial''], trace = []\<rparr>"

definition blank_row :: world where
  "blank_row = \<lparr>service_events = [event_of 1 []], trace = []\<rparr>"

definition prose_row :: world where
  "prose_row = \<lparr>service_events = [event_of 1 ''prose''], trace = []\<rparr>"

definition eleven_events :: "event_row list" where
  "eleven_events =
     event_of 1 ''unreachable'' #
     map (\<lambda>n. event_of n ''<p>down</p>'') [2, 3, 4, 5, 6, 7, 8, 9, 10] @ [event_of 11 ''<p>late</p>'']"

definition eleven_rows :: world where
  "eleven_rows = \<lparr>service_events = eleven_events, trace = []\<rparr>"

definition three_services :: "service list" where
  "three_services =
     [\<lparr>service_ident = 1, feed_url = ''https://a.example/rss''\<rparr>,
      \<lparr>service_ident = 2, feed_url = ''https://b.example/rss''\<rparr>,
      \<lparr>service_ident = 3, feed_url = ''https://c.example/rss''\<rparr>]"

definition summarized_row :: event_row where
  "summarized_row =
     \<lparr>event_id = 7, service_id = 1, event_guid = ''g1'', event_title = ''Incident'',
      description = ''<p>down</p>'', pub_date = ''2024-07-19T14:29:00Z'', status = Some ''resolved'',
      translated_description = Some ''<p>Resolved</p>'', accumulated_time_minutes = Some 5,
      severity = Some ''minor''\<rparr>"

definition later_item :: feed_item where
  "later_item = \<lparr>guid = ''g1'', title = ''Incident resolved'', content = ''<p>up</p>'',
                  isoDate = ''2024-07-19T17:57:00Z''\<rparr>"

definition settled_rows :: world where
  "settled_rows = \<lparr>service_events = [summarized_row], trace = []\<rparr>"

section \<open>Batched ingestion\<close>

lemma upsert_each_length: "length (fst (upsert_each f cs tbl)) = length cs"
proof (induction cs arbitrary: tbl)
  case Nil
  show ?case by simp
next
  case (Cons a cs)
  obtain r tbl1 where fa: "f a tbl = (r, tbl1)" by (cases "f a tbl")
  obtain rs tbl2 where u: "upsert_each f cs tbl1 = (rs, tbl2)" by (cases "upsert_each f cs tbl1")
  from Cons.IH[of tbl1] u have "length rs = length cs" by simp
  with fa u show ?case by simp
qed

lemma upsert_each_append:
  "upsert_each f (xs @ ys) tbl =
     (fst (upsert_each f xs tbl) @ fst (upsert_each f ys (snd (upsert_each f xs tbl))),
      snd (upsert_each f ys (snd (upsert_each f xs tbl))))"
  by (induction xs arbitrary: tbl) (auto split: prod.splits)

lemma settle_all_eq:
  "settle_all f cs w =
     (fst (upsert_each f cs (service_events w)),
      \<lparr>service_events = snd (upsert_each f cs (service_events w)),
       trace = trace w @ settled_block f cs (service_events w)\<rparr>)"
proof (induction cs arbitrary: w)
  case Nil
  show ?case by (simp add: settled_block_def)
next
  case (Cons a cs)
  show ?case
    by (simp add: Cons.IH settled_block_def split: prod.splits)
qed

lemma run_batch_eq:
  "run_batch f sid g w =
     (fst (upsert_each f (map (upsert_call sid) g) (service_events w)),
      \<lparr>service_events = snd (upsert_each f (map (upsert_call sid) g) (service_events w)),
       trace = trace w @ groups_trace f sid [g] (service_events w)\<rparr>)"
  by (simp add: run_batch_def settle_all_eq Let_def)

lemma chunks_step: "0 < n \<Longrightarrow> xs \<noteq> [] \<Longrightarrow> chunks n xs = take n xs # chunks n (drop n xs)"
  by (subst chunks.simps) simp

lemma chunks_Nil: "chunks n [] = []"
  by (subst chunks.simps) simp

lemma concat_chunks: "0 < n \<Longrightarrow> concat (chunks n xs) = xs"
proof (induction n xs rule: chunks.induct)
  case (1 n xs)
  show ?case
  proof (cases "xs = []")
    case True
    then show ?thesis by (simp add: chunks_Nil)
  next
    case False
    with 1 show ?thesis by (simp add: chunks_step)
  qed
qed

lemma chunks_bounded: "g \<in> set (chunks n xs) \<Longrightarrow> length g \<le> n \<and> g \<noteq> []"
proof (induction n xs arbitrary: g rule: chunks.induct)
  case (1 n xs)
  show ?case
  proof (cases "n = 0 \<or> xs = []")
    case True
    with 1(2) show ?thesis by (subst (asm) chunks.simps) simp
  next
    case False
    with 1(2) have "g = take n xs \<or> g \<in> set (chunks n (drop n xs))"
      by (simp add: chunks_step)
    with 1(1) False show ?thesis by auto
  qed
qed

lemma after_groups_Cons:
  "after_groups f sid (g # gs) w = 
     (case run_batch f sid g w of (rs, w1) \<Rightarrow>
        (case after_groups f sid gs w1 of (rs', w2) \<Rightarrow> (rs @ rs', w2)))"
  by (simp add: after_groups_def run_batch_eq upsert_each_append)

lemma processBatch_loop_eq:
  assumes "0 < b"
  shows "processBatch_loop f sid items b i acc w =
           Some (acc @ fst (after_groups f sid (chunks b (drop i items)) w),
                 snd (after_groups f sid (chunks b (drop i items)) w))"
proof (induction "length items - i" arbitrary: i acc w rule: less_induct)
  case less
  show ?case
  proof (cases "i < length items")
    case False
    then show ?thesis
      by (subst processBatch_loop.simps) (simp add: chunks_Nil after_groups_def)
  next
    case True
    then have ne: "drop i items \<noteq> []" by simp
    have dd: "drop b (drop i items) = drop (i + b) items" by (simp add: add.commute)
    from True assms have "length items - (i + b) < length items - i" by arith
    note IH = less[OF this]
    obtain rs w1 where rb: "run_batch f sid (take b (drop i items)) w = (rs, w1)"
      by (cases "run_batch f sid (take b (drop i items)) w")
    have step: "processBatch_loop f sid items b i acc w =
                  processBatch_loop f sid items b (i + b) (acc @ rs) w1"
      by (subst processBatch_loop.simps) (simp add: True rb)
    have "after_groups f sid (chunks b (drop i items)) w =
            (rs @ fst (after_groups f sid (chunks b (drop (i + b) items)) w1),
             snd (after_groups f sid (chunks b (drop (i + b) items)) w1))"
      by (simp add: chunks_step[OF assms ne] after_groups_Cons rb add.commute split: prod.splits)
    with step IH[of "acc @ rs" w1] show ?thesis by simp
  qed
qed

lemma in_flight_append: "in_flight (xs @ ys) = in_flight xs + in_flight ys"
  by (induction xs rule: in_flight.induct) simp_all

lemma in_flight_sent: "in_flight (map Rpc_sent cs) = int (length cs)"
  by (induction cs) simp_all

lemma in_flight_settled: "in_flight (map (\<lambda>(a, r). Rpc_settled a r) zs) = - int (length zs)"
  by (induction zs) (simp_all split: prod.splits)

lemma length_settled_block: "length (settled_block f cs tbl) = length cs"
  by (simp add: settled_block_def upsert_each_length)

lemma in_flight_take_settled:
  "in_flight (take m (settled_block f cs tbl)) = - int (min m (length cs))"
proof -
  have "take m (settled_block f cs tbl) =
          map (\<lambda>(a, r). Rpc_settled a r) (take m (zip cs (fst (upsert_each f cs tbl))))"
    by (simp add: settled_block_def take_map)
  then show ?thesis
    by (simp add: in_flight_settled upsert_each_length min.commute)
qed

lemma in_flight_take_block:
  "in_flight (take n (map Rpc_sent cs @ settled_block f cs tbl)) \<le> int (length cs)"
proof -
  have "in_flight (take n (map Rpc_sent cs)) = int (min n (length cs))"
    using in_flight_sent[of "take n cs"] by (simp add: take_map min.commute)
  then show ?thesis
    by (simp add: in_flight_append in_flight_take_settled)
qed

lemma in_flight_block: "in_flight (map Rpc_sent cs @ settled_block f cs tbl) = 0"
  using in_flight_take_settled[of "length cs" f cs tbl]
  by (simp add: in_flight_append in_flight_sent length_settled_block)

lemma in_flight_groups_trace:
  assumes "\<forall>g \<in> set gs. length g \<le> b"
  shows "in_flight (take n (groups_trace f sid gs tbl)) \<le> int b"
  using assms
proof (induction gs arbitrary: n tbl)
  case Nil
  show ?case by simp
next
  case (Cons g gs)
  let ?cs = "map (upsert_call sid) g"
  let ?B = "map Rpc_sent ?cs @ settled_block f ?cs tbl"
  let ?R = "groups_trace f sid gs (snd (upsert_each f ?cs tbl))"
  have tr: "groups_trace f sid (g # gs) tbl = ?B @ ?R" by simp
  have split: "in_flight (take n (?B @ ?R)) = in_flight (take n ?B) + in_flight (take (n - length ?B) ?R)"
    by (simp only: take_append in_flight_append)
  show ?case
  proof (cases "n \<le> length ?B")
    case True
    then have "in_flight (take (n - length ?B) ?R) = 0" by simp
    moreover have "in_flight (take n ?B) \<le> int (length g)"
      using in_flight_take_block[of n ?cs f tbl] by simp
    moreover from Cons.prems have "length g \<le> b" by simp
    ultimately show ?thesis unfolding tr split by linarith
  next
    case False
    then have "take n ?B = ?B" by simp
    then have "in_flight (take n ?B) = 0" using in_flight_block[of ?cs f tbl] by simp
    moreover from Cons.prems have "in_flight (take (n - length ?B) ?R) \<le> int b"
      by (intro Cons.IH) simp
    ultimately show ?thesis unfolding tr split by linarith
  qed
qed

lemma rpc_events_append: "rpc_events (xs @ ys) = rpc_events xs @ rpc_events ys"
  by (induction xs rule: rpc_events.induct) simp_all

lemma rpc_events_sent: "rpc_events (map Rpc_sent cs) = map Issue cs"
  by (induction cs) simp_all

lemma rpc_events_sent_comp: "rpc_events (map (Rpc_sent \<circ> h) xs) = map (Issue \<circ> h) xs"
  using rpc_events_sent[of "map h xs"] by simp

lemma rpc_events_settled:
  "length rs = length cs \<Longrightarrow> rpc_events (map (\<lambda>(a, r). Rpc_settled a r) (zip cs rs)) = map Settle cs"
  by (induction cs rs rule: list_induct2') simp_all

lemma rpc_events_groups_trace:
  "rpc_events (groups_trace f sid gs tbl) = concat (map (group_events sid) gs)"
  by (induction gs arbitrary: tbl)
     (simp_all add: rpc_events_append rpc_events_sent_comp rpc_events_settled settled_block_def
        upsert_each_length group_events_def)

lemma sent_calls_append: "sent_calls (xs @ ys) = sent_calls xs @ sent_calls ys"
  by (induction xs rule: sent_calls.induct) simp_all

lemma sent_calls_sent: "sent_calls (map Rpc_sent cs) = cs"
  by (induction cs) simp_all

lemma sent_calls_sent_comp: "sent_calls (map (Rpc_sent \<circ> h) xs) = map h xs"
  using sent_calls_sent[of "map h xs"] by simp

lemma sent_calls_settled: "sent_calls (map (\<lambda>(a, r). Rpc_settled a r) zs) = []"
  by (induction zs) (simp_all split: prod.splits)

lemma sent_calls_groups_trace:
  "sent_calls (groups_trace f sid gs tbl) = map (upsert_call sid) (concat gs)"
  by (induction gs arbitrary: tbl)
     (simp_all add: sent_calls_append sent_calls_sent_comp sent_calls_settled settled_block_def)

lemma processBatch_eq:
  assumes "0 < b"
  shows "processBatch f sid items b w =
           Some (\<lparr>serviceId = sid, results = fst (after_groups f sid (chunks b items) w)\<rparr>,
                 snd (after_groups f sid (chunks b items) w))"
  by (simp add: processBatch_def processBatch_loop_eq[OF assms] split: prod.splits)

lemma single_file_processBatch_outcomes:
  assumes "1 \<le> batchSize"
  shows "\<exists>rep w'. processBatch f sid items batchSize w = Some (rep, w')
           \<and> serviceId rep = sid
           \<and> length (results rep) = length items
           \<and> results rep = fst (upsert_each f (map (upsert_call sid) items) (service_events w))
           \<and> service_events w' = snd (upsert_each f (map (upsert_call sid) items) (service_events w))
           \<and> sent_calls (trace w') = sent_calls (trace w) @ map (upsert_call sid) items"
proof -
  from assms have b: "0 < batchSize" by simp
  show ?thesis
    by (simp add: processBatch_eq[OF b] after_groups_def concat_chunks[OF b] upsert_each_length
          sent_calls_append sent_calls_groups_trace)
qed

lemma utils_processBatch_rejects_items:
  assumes "0 < b" and "items \<noteq> []"
  shows "utils_processBatch f sid items b w = Some (Inl ''supabase is not defined'', w)"
proof -
  from assms have "take b (drop 0 items) \<noteq> []" by simp
  with assms(2) have "utils_processBatch_loop f sid items b 0 [] w =
                        Some (Inl ''supabase is not defined'', w)"
    by (subst utils_processBatch_loop.simps) (simp add: utils_declares_def)
  then show ?thesis by (simp add: utils_processBatch_def)
qed

lemma utils_processBatch_no_items:
  "utils_processBatch f sid [] b w = Some (Inr \<lparr>serviceId = sid, results = []\<rparr>, w)"
proof -
  have "utils_processBatch_loop f sid [] b 0 [] w = Some (Inr [], w)"
    by (subst utils_processBatch_loop.simps) simp
  then show ?thesis by (simp add: utils_processBatch_def)
qed

text \<open>
  Claim C3: \<open>processBatch\<close> of \<open>utils.js\<close>, called with three items and the batch size
  of its caller, returns no list of outcomes: its promise is rejected with the
  ReferenceError for \<open>supabase\<close>, no request has been issued and the table is as it
  was. The \<open>processBatch\<close> of the single-file version, which has the same text and the
  client in scope, returns the three outcomes, the error of the second item among them.
\<close>

theorem utils_processBatch_returns_no_outcomes:
  "utils_processBatch (upsert_service_event [1]) 1 [item_of ''g1'', item_of [], item_of ''g3''] 10 world0 =
     Some (Inl ''supabase is not defined'', world0)
   \<and> (\<exists>rep w'. processBatch (upsert_service_event [1]) 1 [item_of ''g1'', item_of [], item_of ''g3''] 10 world0
                   = Some (rep, w')
          \<and> results rep = [Inr 1, Inl ''invalid input'', Inr 2]
          \<and> map event_guid (service_events w') = [''g1'', ''g3''])"
proof
  show "utils_processBatch (upsert_service_event [1]) 1 [item_of ''g1'', item_of [], item_of ''g3''] 10 world0 =
          Some (Inl ''supabase is not defined'', world0)"
    by (rule utils_processBatch_rejects_items) simp_all
next
  show "\<exists>rep w'. processBatch (upsert_service_event [1]) 1 [item_of ''g1'', item_of [], item_of ''g3''] 10 world0
                   = Some (rep, w')
          \<and> results rep = [Inr 1, Inl ''invalid input'', Inr 2]
          \<and> map event_guid (service_events w') = [''g1'', ''g3'']"
    using single_file_processBatch_outcomes
            [of 10 "upsert_service_event [1]" 1 "[item_of ''g1'', item_of [], item_of ''g3'']" world0]
    by (auto simp: world0_def item_of_def upsert_call_def upsert_service_event_def same_key_def fresh_id_def)
qed

lemma processBatch_loop_stuck:
  assumes "processBatch_loop f sid items b i acc w = Some y"
  shows "\<not> (b = 0 \<and> i < length items)"
proof (rule processBatch_loop.raw_induct
         [where P = "\<lambda>f sid items b i acc w y. \<not> (b = 0 \<and> i < length items)", OF _ assms])
  fix loop f' sid' items' b' i' acc' w' y'
  assume IH: "\<And>f sid items b i acc w y.
                 loop f sid items b i acc w = Some y \<Longrightarrow> \<not> (b = 0 \<and> i < length (items :: feed_item list))"
    and body: "(if i' < length items' then
                  (case run_batch f' sid' (take b' (drop i' items')) w' of
                     (batchResults, w'') \<Rightarrow>
                       loop f' sid' items' b' (i' + b') (acc' @ batchResults) w'')
                else Some (acc', w')) = Some y'"
  show "\<not> (b' = 0 \<and> i' < length items')"
  proof
    assume stuck: "b' = 0 \<and> i' < length items'"
    obtain rs w1 where rb: "run_batch f' sid' (take b' (drop i' items')) w' = (rs, w1)"
      by (cases "run_batch f' sid' (take b' (drop i' items')) w'")
    from body stuck rb have "loop f' sid' items' b' (i' + b') (acc' @ rs) w1 = Some y'" by simp
    from IH[OF this] stuck show False by simp
  qed
qed

text \<open>
  Claim C10. \<open>processBatch\<close> returns when \<open>batchSize\<close> is at least one; with
  \<open>batchSize = 0\<close> and a non-empty list the index never advances and \<open>processBatch\<close>
  does not return.
\<close>

theorem processBatch_terminates_iff_advancing:
  "(1 \<le> batchSize \<longrightarrow> (\<exists>r. processBatch f sid items batchSize w = Some r))
   \<and> (items \<noteq> [] \<longrightarrow> processBatch f sid items 0 w = None)"
proof
  show "1 \<le> batchSize \<longrightarrow> (\<exists>r. processBatch f sid items batchSize w = Some r)"
    by (simp add: processBatch_eq)
next
  show "items \<noteq> [] \<longrightarrow> processBatch f sid items 0 w = None"
  proof
    assume ne: "items \<noteq> []"
    have "processBatch_loop f sid items 0 0 [] w = None"
    proof (cases "processBatch_loop f sid items 0 0 [] w")
      case None
      then show ?thesis .
    next
      case (Some y)
      from processBatch_loop_stuck[OF this] ne show ?thesis by simp
    qed
    then show "processBatch f sid items 0 w = None" by (simp add: processBatch_def)
  qed
qed

theorem processBatch_terminates_iff_advancing_witness:
  "(1::nat) \<le> 10 \<and> [item_of ''g1''] \<noteq> []
   \<and> (\<exists>r. processBatch (upsert_service_event [1]) 1 [item_of ''g1''] 10 world0 = Some r)
   \<and> processBatch (upsert_service_event [1]) 1 [item_of ''g1''] 0 world0 = None"
  using processBatch_terminates_iff_advancing
          [of 10 "upsert_service_event [1]" 1 "[item_of ''g1'']" world0]
        processBatch_terminates_iff_advancing
          [of 0 "upsert_service_event [1]" 1 "[item_of ''g1'']" world0]
  by simp

lemma utils_processBatch_loop_stuck:
  assumes "utils_processBatch_loop f sid items b i acc w = Some y"
  shows "\<not> (b = 0 \<and> i < length items)"
proof (rule utils_processBatch_loop.raw_induct
         [where P = "\<lambda>f sid items b i acc w y. \<not> (b = 0 \<and> i < length items)", OF _ assms])
  fix loop f' sid' items' b' i' acc' w' y'
  assume IH: "\<And>f sid items b i acc w y.
                 loop f sid items b i acc w = Some y \<Longrightarrow> \<not> (b = 0 \<and> i < length (items :: feed_item list))"
    and body: "(if i' < length items' then
                  (if take b' (drop i' items') \<noteq> [] \<and> \<not> utils_declares ''supabase''
                   then Some (Inl ''supabase is not defined'', w')
                   else
                     (case run_batch f' sid' (take b' (drop i' items')) w' of
                        (batchResults, w'') \<Rightarrow>
                          loop f' sid' items' b' (i' + b') (acc' @ batchResults) w''))
                else Some (Inr acc', w')) = Some y'"
  show "\<not> (b' = 0 \<and> i' < length items')"
  proof
    assume stuck: "b' = 0 \<and> i' < length items'"
    obtain rs w1 where rb: "run_batch f' sid' (take b' (drop i' items')) w' = (rs, w1)"
      by (cases "run_batch f' sid' (take b' (drop i' items')) w'")
    from body stuck rb have "loop f' sid' items' b' (i' + b') (acc' @ rs) w1 = Some y'" by simp
    from IH[OF this] stuck show False by simp
  qed
qed

lemma utils_processBatch_zero_never_returns:
  assumes "items \<noteq> []"
  shows "utils_processBatch f sid items 0 w = None"
proof -
  have "utils_processBatch_loop f sid items 0 0 [] w = None"
  proof (cases "utils_processBatch_loop f sid items 0 0 [] w")
    case None
    then show ?thesis .
  next
    case (Some y)
    from utils_processBatch_loop_stuck[OF this] assms show ?thesis by simp
  qed
  then show ?thesis by (simp add: utils_processBatch_def)
qed

text \<open>
  Claim C8. For every \<open>batchSize\<close> of at least one, the requests of \<open>processBatch\<close>
  come group by group: the groups are consecutive, non-empty, of at most \<open>batchSize\<close>
  items and in the original order, every request of a group is issued and settled before
  the first request of the next group is issued, and after every prefix of the trace at
  most \<open>batchSize\<close> requests are in flight.
\<close>

theorem processBatch_groups_sequential:
  assumes "1 \<le> batchSize"
  shows "\<exists>rep w' tr. processBatch f sid items batchSize w = Some (rep, w')
           \<and> trace w' = trace w @ tr
           \<and> rpc_events tr = concat (map (group_events sid) (chunks batchSize items))
           \<and> concat (chunks batchSize items) = items
           \<and> (\<forall>g \<in> set (chunks batchSize items). g \<noteq> [] \<and> length g \<le> batchSize)
           \<and> (\<forall>n \<le> length tr. in_flight (take n tr) \<le> int batchSize)"
proof -
  from assms have b: "0 < batchSize" by simp
  let ?tr = "groups_trace f sid (chunks batchSize items) (service_events w)"
  have bound: "\<forall>g \<in> set (chunks batchSize items). g \<noteq> [] \<and> length g \<le> batchSize"
    using chunks_bounded by blast
  then have len: "\<forall>g \<in> set (chunks batchSize items). length g \<le> batchSize" by blast
  have "processBatch f sid items batchSize w =
          Some (\<lparr>serviceId = sid, results = fst (after_groups f sid (chunks batchSize items) w)\<rparr>,
                snd (after_groups f sid (chunks batchSize items) w))"
    by (rule processBatch_eq[OF b])
  moreover have "trace (snd (after_groups f sid (chunks batchSize items) w)) = trace w @ ?tr"
    by (simp add: after_groups_def)
  moreover have "rpc_events ?tr = concat (map (group_events sid) (chunks batchSize items))"
    by (rule rpc_events_groups_trace)
  moreover have "concat (chunks batchSize items) = items"
    by (rule concat_chunks[OF b])
  moreover have "\<forall>n \<le> length ?tr. in_flight (take n ?tr) \<le> int batchSize"
    using in_flight_groups_trace[OF len] by blast
  ultimately show ?thesis using bound by blast
qed

lemma chunks_five: "chunks 2 five_items =
   [[item_of ''g1'', item_of ''g2''], [item_of ''g3'', item_of ''g4''], [item_of ''g5'']]"
  by (simp add: five_items_def chunks.simps)

theorem processBatch_groups_sequential_witness:
  "(1::nat) \<le> 2 \<and>
   (\<exists>rep w' tr. processBatch (upsert_service_event [1]) 1 five_items 2 world0 = Some (rep, w')
      \<and> trace w' = trace world0 @ tr
      \<and> rpc_events tr =
          [Issue (upsert_call 1 (item_of ''g1'')), Issue (upsert_call 1 (item_of ''g2'')),
           Settle (upsert_call 1 (item_of ''g1'')), Settle (upsert_call 1 (item_of ''g2'')),
           Issue (upsert_call 1 (item_of ''g3'')), Issue (upsert_call 1 (item_of ''g4'')),
           Settle (upsert_call 1 (item_of ''g3'')), Settle (upsert_call 1 (item_of ''g4'')),
           Issue (upsert_call 1 (item_of ''g5'')), Settle (upsert_call 1 (item_of ''g5''))]
      \<and> (\<forall>n \<le> length tr. in_flight (take n tr) \<le> 2))"
  using processBatch_groups_sequential [of 2 "upsert_service_event [1]" 1 five_items world0]
  by (auto simp: chunks_five group_events_def)

section \<open>Event summarizer\<close>

lemma llm_requests_append: "llm_requests (xs @ ys) = llm_requests xs @ llm_requests ys"
  by (induction xs rule: llm_requests.induct) simp_all

lemma db_updates_append: "db_updates (xs @ ys) = db_updates xs @ db_updates ys"
  by (induction xs rule: db_updates.induct) simp_all

lemma processEvent_rejects:
  "processEvent e event w =
     (Inl ''Error processing event'', w\<lparr>trace := trace w @ [Logged_event_error (event_id event)]\<rparr>)"
  by (simp add: processEvent_def utils_declares_def reject_event_def)

lemma update_rows_frame:
  "update_rows wr eid tbl = Some tbl' \<Longrightarrow>
     list_all2 (\<lambda>r r'. event_id r \<noteq> eid \<longrightarrow> r' = r) tbl tbl'"
  by (induction tbl arbitrary: tbl') (auto split: if_splits option.splits)

lemma db_update_effect:
  assumes "db_update e fs eid w = (err, w')"
  shows "trace w' = trace w @ [Db_update fs eid]"
    and "list_all2 (\<lambda>r r'. event_id r \<noteq> eid \<longrightarrow> r' = r) (service_events w) (service_events w')"
    and "err \<noteq> None \<Longrightarrow> service_events w' = service_events w"
  using assms update_rows_frame[of "db_write e fs" eid "service_events w"]
  by (auto simp: db_update_def Let_def list_all2_same split: option.splits)

lemma summarize_event_eq:
  assumes "filter (\<lambda>r. event_id r = eventId) (service_events w) = ev # rest"
  shows "summarize_event e None eventId w =
     (case usable_reply e (description ev) of
        None \<Rightarrow> fail_summarize eventId (w\<lparr>trace := trace w @ [Llm_request (description ev)]\<rparr>)
      | Some result \<Rightarrow>
          (case db_update e (spread result) eventId
                  (w\<lparr>trace := trace w @ [Llm_request (description ev)]\<rparr>) of
             (Some upsertError, w2) \<Rightarrow> fail_summarize eventId w2
           | (None, w2) \<Rightarrow>
               (Sent_with_id 200 ''Successfully summarized event '' eventId,
                w2\<lparr>trace := trace w2 @ [Logged_summarized eventId]\<rparr>)))"
  using assms
  by (simp add: summarize_event_def usable_reply_def Let_def split: option.splits list.splits)

lemma summarize_event_confined:
  assumes "filter (\<lambda>r. event_id r = eventId) (service_events w) = ev # rest"
  shows "confined_to eventId w (snd (summarize_event e None eventId w))"
proof (cases "usable_reply e (description ev)")
  case None
  then show ?thesis
    by (simp add: summarize_event_eq[OF assms] fail_summarize_def confined_to_def list_all2_same)
next
  case (Some res)
  let ?w1 = "w\<lparr>trace := trace w @ [Llm_request (description ev)]\<rparr>"
  obtain err w2 where u: "db_update e (spread res) eventId ?w1 = (err, w2)"
    by (cases "db_update e (spread res) eventId ?w1")
  from db_update_effect(1,2)[OF u]
  have tr: "trace w2 = trace w @ [Llm_request (description ev), Db_update (spread res) eventId]"
    and fr: "list_all2 (\<lambda>r r'. event_id r \<noteq> eventId \<longrightarrow> r' = r) (service_events w) (service_events w2)"
    by simp_all
  show ?thesis
    using Some u tr fr
    by (cases err) (simp_all add: summarize_event_eq[OF assms] fail_summarize_def confined_to_def)
qed

lemma summarize_event_found_confined:
  assumes "\<exists>r \<in> set (service_events w). event_id r = eventId"
  shows "confined_to eventId w (snd (summarize_event e None eventId w))"
proof -
  from assms have "filter (\<lambda>r. event_id r = eventId) (service_events w) \<noteq> []"
    by (simp add: filter_empty_conv)
  then obtain ev rest where "filter (\<lambda>r. event_id r = eventId) (service_events w) = ev # rest"
    by (cases "filter (\<lambda>r. event_id r = eventId) (service_events w)") auto
  then show ?thesis by (rule summarize_event_confined)
qed

text \<open>
  Claim C9: for every event, a run of \<open>processEvent\<close> calls the language model not once
  but never: the identifier \<open>anthropic\<close> is not declared in \<open>utils.js\<close>, the
  ReferenceError is caught, the error is logged with the event's identifier and the
  promise is rejected. Nothing is written. (The handler of \<open>POST /summarize-event\<close>,
  which has the clients in scope, does what the claim says, as
  \<open>summarize_event_found_confined\<close> shows.)
\<close>

theorem processEvent_calls_no_llm:
  "processEvent e event w =
     (Inl ''Error processing event'', w\<lparr>trace := trace w @ [Logged_event_error (event_id event)]\<rparr>)
   \<and> llm_requests (trace (snd (processEvent e event w))) = llm_requests (trace w)
   \<and> db_updates (trace (snd (processEvent e event w))) = db_updates (trace w)
   \<and> service_events (snd (processEvent e event w)) = service_events w"
  by (simp add: processEvent_rejects llm_requests_append db_updates_append)

lemma full_ne_partial: "full_reply \<noteq> partial_reply"
  by (simp add: full_reply_def partial_reply_def)

lemma event_of_sel: "event_id (event_of n d) = n" "description (event_of n d) = d"
  by (simp_all add: event_of_def)

lemma usable_reply_None:
  assumes "llm e d = Some (reply # others)"
    and "JSON_parse e reply = None \<or> (\<exists>v. JSON_parse e reply = Some v \<and> \<not> truthy v)"
  shows "usable_reply e d = None"
  using assms by (auto simp: usable_reply_def)

lemma usable_reply_Some:
  assumes "llm e d = Some (reply # others)" and "JSON_parse e reply = Some v" and "truthy v"
  shows "usable_reply e d = Some v"
  using assms by (simp add: usable_reply_def)

lemma summarize_event_trace:
  assumes "filter (\<lambda>r. event_id r = eventId) (service_events w) = ev # rest"
  shows "\<exists>final. trace (snd (summarize_event e None eventId w)) =
     trace w @ Llm_request (description ev) #
       (case usable_reply e (description ev) of
          None \<Rightarrow> []
        | Some res \<Rightarrow> [Db_update (spread res) eventId]) @ [final]
     \<and> (final = Logged_error \<or> final = Logged_summarized eventId)"
proof (cases "usable_reply e (description ev)")
  case None
  then show ?thesis by (simp add: summarize_event_eq[OF assms] fail_summarize_def)
next
  case (Some res)
  let ?w1 = "w\<lparr>trace := trace w @ [Llm_request (description ev)]\<rparr>"
  obtain err w2 where u: "db_update e (spread res) eventId ?w1 = (err, w2)"
    by (cases "db_update e (spread res) eventId ?w1")
  from db_update_effect(1)[OF u] Some u show ?thesis
    by (cases err) (simp_all add: summarize_event_eq[OF assms] fail_summarize_def)
qed

lemma summarize_event_llm_requests:
  assumes "filter (\<lambda>r. event_id r = eventId) (service_events w) = ev # rest"
  shows "llm_requests (trace (snd (summarize_event e None eventId w))) = llm_requests (trace w) @ [description ev]"
  using summarize_event_trace[OF assms, of e]
  by (auto simp: llm_requests_append split: option.splits)

lemma summarize_event_db_updates:
  assumes "filter (\<lambda>r. event_id r = eventId) (service_events w) = ev # rest"
  shows "db_updates (trace (snd (summarize_event e None eventId w))) =
     db_updates (trace w) @
       (case usable_reply e (description ev) of
          None \<Rightarrow> []
        | Some res \<Rightarrow> [(spread res, eventId)])"
  using summarize_event_trace[OF assms, of e]
  by (auto simp: db_updates_append split: option.splits)

text \<open>
  Claim C6, as stated, fails: a reply that holds one of the four structured fields and
  lacks the other three is not an error; the handler of \<open>POST /summarize-event\<close>
  answers 200 and the reply is written to the row.
\<close>

theorem schema_violating_reply_is_written:
  "llm sample_env (description (event_of 1 ''partial'')) = Some [partial_reply]
   \<and> JSON_parse sample_env partial_reply = Some (JObj [(''status'', JStr ''resolved'')])
   \<and> summarize_event sample_env None 1 partial_row =
       (Sent_with_id 200 ''Successfully summarized event '' 1,
        \<lparr>service_events = [(event_of 1 ''partial'')\<lparr>status := Some ''resolved''\<rparr>],
         trace = [Llm_request ''partial'', Db_update [(''status'', JStr ''resolved'')] 1,
                  Logged_summarized 1]\<rparr>)"
  by (simp add: summarize_event_def partial_row_def event_of_def sample_env_def
        sample_llm_def sample_parse_def full_ne_partial[symmetric] db_update_def set_column_def
        Let_def)

text \<open>
  Claim C6, amended. For every request to \<open>POST /summarize-event\<close> whose event is
  found: when the first content block of the completion is not valid JSON, or parses to a
  falsy value, the handler answers 500, the language model has been called once and
  nothing is written. Any other parsed value is not checked: its properties, as they
  are, are the columns of the one update that is issued for the event's row.
\<close>

theorem unusable_reply_never_written:
  "(filter (\<lambda>r. event_id r = eventId) (service_events w) = ev # rest
        \<and> llm e (description ev) = Some (reply # others)
        \<and> (JSON_parse e reply = None \<or> (\<exists>v. JSON_parse e reply = Some v \<and> \<not> truthy v)) \<longrightarrow>
        summarize_event e None eventId w =
          (Sent_with_id 500 ''Error: Unable to summarize '' eventId,
           w\<lparr>trace := trace w @ [Llm_request (description ev), Logged_error]\<rparr>))
   \<and> (filter (\<lambda>r. event_id r = eventId) (service_events w) = ev # rest
        \<and> llm e (description ev) = Some (reply # others) \<and> JSON_parse e reply = Some v \<and> truthy v \<longrightarrow>
        db_updates (trace (snd (summarize_event e None eventId w))) =
          db_updates (trace w) @ [(spread v, eventId)])"
proof (intro conjI impI)
  assume a: "filter (\<lambda>r. event_id r = eventId) (service_events w) = ev # rest
        \<and> llm e (description ev) = Some (reply # others)
        \<and> (JSON_parse e reply = None \<or> (\<exists>v. JSON_parse e reply = Some v \<and> \<not> truthy v))"
  then have "usable_reply e (description ev) = None"
    using usable_reply_None by blast
  with a show "summarize_event e None eventId w =
          (Sent_with_id 500 ''Error: Unable to summarize '' eventId,
           w\<lparr>trace := trace w @ [Llm_request (description ev), Logged_error]\<rparr>)"
    by (simp add: summarize_event_eq[of eventId w ev rest] fail_summarize_def)
next
  assume a: "filter (\<lambda>r. event_id r = eventId) (service_events w) = ev # rest
        \<and> llm e (description ev) = Some (reply # others) \<and> JSON_parse e reply = Some v \<and> truthy v"
  then have "usable_reply e (description ev) = Some v"
    using usable_reply_Some by blast
  with a show "db_updates (trace (snd (summarize_event e None eventId w))) =
          db_updates (trace w) @ [(spread v, eventId)]"
    by (simp add: summarize_event_db_updates[of eventId w ev rest])
qed

theorem unusable_reply_never_written_witness:
  "filter (\<lambda>r. event_id r = 1) (service_events prose_row) = [event_of 1 ''prose'']
   \<and> llm sample_env (description (event_of 1 ''prose'')) = Some [''The incident is resolved.'']
   \<and> JSON_parse sample_env ''The incident is resolved.'' = None
   \<and> summarize_event sample_env None 1 prose_row =
        (Sent_with_id 500 ''Error: Unable to summarize '' 1,
         prose_row\<lparr>trace := [Llm_request ''prose'', Logged_error]\<rparr>)
   \<and> filter (\<lambda>r. event_id r = 1) (service_events partial_row) = [event_of 1 ''partial'']
   \<and> llm sample_env (description (event_of 1 ''partial'')) = Some [partial_reply]
   \<and> JSON_parse sample_env partial_reply = Some (JObj [(''status'', JStr ''resolved'')])
   \<and> truthy (JObj [(''status'', JStr ''resolved'')])
   \<and> db_updates (trace (snd (summarize_event sample_env None 1 partial_row))) =
        [([(''status'', JStr ''resolved'')], 1)]"
proof -
  have h1: "llm sample_env (description (event_of 1 ''prose'')) = Some [''The incident is resolved.'']"
    by (simp add: sample_env_def sample_llm_def event_of_def)
  have h2: "JSON_parse sample_env ''The incident is resolved.'' = None"
    by (simp add: sample_env_def sample_parse_def full_reply_def partial_reply_def)
  have h3: "filter (\<lambda>r. event_id r = 1) (service_events prose_row) = [event_of 1 ''prose'']"
    by (simp add: prose_row_def event_of_def)
  have h4: "llm sample_env (description (event_of 1 ''partial'')) = Some [partial_reply]"
    by (simp add: sample_env_def sample_llm_def event_of_def)
  have h5: "JSON_parse sample_env partial_reply = Some (JObj [(''status'', JStr ''resolved'')])"
    by (simp add: sample_env_def sample_parse_def full_ne_partial[symmetric])
  have h6: "filter (\<lambda>r. event_id r = 1) (service_events partial_row) = [event_of 1 ''partial'']"
    by (simp add: partial_row_def event_of_def)
  have t0: "trace prose_row = []" "trace partial_row = []"
    by (simp_all add: prose_row_def partial_row_def)
  note a = unusable_reply_never_written
             [where e = sample_env and w = prose_row
                and reply = "''The incident is resolved.''" and others = "[]" and eventId = 1
                and v = JNull and ev = "event_of 1 ''prose''" and rest = "[]"]
  note b = unusable_reply_never_written
             [where e = sample_env and w = partial_row
                and reply = partial_reply and others = "[]" and eventId = 1
                and v = "JObj [(''status'', JStr ''resolved'')]"
                and ev = "event_of 1 ''partial''" and rest = "[]"]
  from a b h1 h2 h3 h4 h5 h6 show ?thesis
    by (simp add: t0 event_of_sel)
qed

text \<open>
  Claim C7, as stated, fails: for a row that exists and whose description is empty the
  handler of \<open>POST /summarize-event\<close> calls the language model, with the empty text.
\<close>

theorem empty_description_reaches_llm:
  "description (event_of 1 []) = []
   \<and> summarize_event sample_env None 1 blank_row =
       (Sent_with_id 500 ''Error: Unable to summarize '' 1,
        blank_row\<lparr>trace := [Llm_request [], Logged_error]\<rparr>)"
  by (simp add: summarize_event_def fail_summarize_def blank_row_def event_of_def sample_env_def
        sample_llm_def)

text \<open>
  Claim C7, amended. The handler of \<open>POST /summarize-event\<close> checks only that the
  event exists: when the select reports an error or finds no row it answers 500 and does
  nothing else, so the language model is not called and nothing is tried again. For a row
  that exists the language model is called once with the row's description, whatever it
  is.
\<close>

theorem summarizer_checks_existence_only:
  "(eventError \<noteq> None \<or> (\<forall>r \<in> set (service_events w). event_id r \<noteq> eventId) \<longrightarrow>
      summarize_event e eventError eventId w =
        (Sent_with_id 500 ''Error: Unable to summarize '' eventId,
         w\<lparr>trace := trace w @ [Logged_error]\<rparr>))
   \<and> (filter (\<lambda>r. event_id r = eventId) (service_events w) = ev # rest \<longrightarrow>
        llm_requests (trace (snd (summarize_event e None eventId w))) =
          llm_requests (trace w) @ [description ev])"
proof (intro conjI impI)
  assume a: "eventError \<noteq> None \<or> (\<forall>r \<in> set (service_events w). event_id r \<noteq> eventId)"
  show "summarize_event e eventError eventId w =
        (Sent_with_id 500 ''Error: Unable to summarize '' eventId,
         w\<lparr>trace := trace w @ [Logged_error]\<rparr>)"
  proof (cases eventError)
    case (Some m)
    then show ?thesis by (simp add: summarize_event_def fail_summarize_def)
  next
    case None
    with a have "filter (\<lambda>r. event_id r = eventId) (service_events w) = []"
      by (simp add: filter_empty_conv)
    with None show ?thesis by (simp add: summarize_event_def fail_summarize_def)
  qed
next
  assume "filter (\<lambda>r. event_id r = eventId) (service_events w) = ev # rest"
  then show "llm_requests (trace (snd (summarize_event e None eventId w))) =
          llm_requests (trace w) @ [description ev]"
    by (rule summarize_event_llm_requests)
qed

theorem summarizer_checks_existence_only_witness:
  "filter (\<lambda>r. event_id r = 9) (service_events two_rows) = []
   \<and> summarize_event sample_env None 9 two_rows =
        (Sent_with_id 500 ''Error: Unable to summarize '' 9, two_rows\<lparr>trace := [Logged_error]\<rparr>)
   \<and> summarize_event sample_env (Some ''timeout'') 1 two_rows =
        (Sent_with_id 500 ''Error: Unable to summarize '' 1, two_rows\<lparr>trace := [Logged_error]\<rparr>)
   \<and> filter (\<lambda>r. event_id r = 1) (service_events blank_row) = [event_of 1 []]
   \<and> llm_requests (trace (snd (summarize_event sample_env None 1 blank_row))) = [[]]"
proof -
  have h1: "\<forall>r \<in> set (service_events two_rows). event_id r \<noteq> 9"
    by (simp add: two_rows_def event_of_def)
  have h2: "filter (\<lambda>r. event_id r = 1) (service_events blank_row) = [event_of 1 []]"
    by (simp add: blank_row_def event_of_def)
  have t0: "trace two_rows = []" "trace blank_row = []"
    by (simp_all add: two_rows_def blank_row_def)
  note a = summarizer_checks_existence_only
             [where e = sample_env and eventError = None and eventId = 9 and w = two_rows
                and ev = "event_of 1 []" and rest = "[]"]
  note b = summarizer_checks_existence_only
             [where e = sample_env and eventError = None and eventId = 1 and w = blank_row
                and ev = "event_of 1 []" and rest = "[]"]
  note c = summarizer_checks_existence_only
             [where e = sample_env and eventError = "Some ''timeout''" and eventId = 1 and w = two_rows
                and ev = "event_of 1 []" and rest = "[]"]
  have h3: "filter (\<lambda>r. event_id r = 9) (service_events two_rows) = []"
    by (simp add: two_rows_def event_of_def)
  from a b c h1 h2 h3 show ?thesis
    by (simp add: t0 event_of_sel)
qed

section \<open>Bulk summarization\<close>

lemma run_events_all_rejected:
  "run_events e evs w =
     (map (\<lambda>ev. Inl ''Error processing event'') evs,
      w\<lparr>trace := trace w @ map (\<lambda>ev. Logged_event_error (event_id ev)) evs\<rparr>)"
proof (induction evs arbitrary: w)
  case Nil
  show ?case by simp
next
  case (Cons ev evs)
  show ?case by (simp add: processEvent_rejects Cons.IH)
qed

lemma process_events_loop_group:
  assumes "i < length events"
  shows "process_events_loop e events i w =
           (Inl ''Error processing event'',
            w\<lparr>trace := trace w @
               map (\<lambda>ev. Logged_event_error (event_id ev)) (take BATCH_SIZE (drop i events))\<rparr>)"
proof -
  from assms have "take BATCH_SIZE (drop i events) \<noteq> []"
    by (simp add: BATCH_SIZE_def)
  then obtain ev evs where g: "take BATCH_SIZE (drop i events) = ev # evs"
    by (cases "take BATCH_SIZE (drop i events)") auto
  show ?thesis
    by (subst process_events_loop.simps) (simp add: assms run_events_all_rejected g)
qed

lemma process_events_nonempty:
  assumes "filter (\<lambda>r. translated_description r = None) (service_events w) \<noteq> []"
  shows "process_events e None w =
           (Sent 500 ''Error while processing the events'',
            w\<lparr>trace := trace w @
               map (\<lambda>ev. Logged_event_error (event_id ev))
                 (take BATCH_SIZE (filter (\<lambda>r. translated_description r = None) (service_events w)))
               @ [Logged_error]\<rparr>)"
proof -
  from assms have "0 < length (filter (\<lambda>r. translated_description r = None) (service_events w))"
    by simp
  from process_events_loop_group[OF this, of e w] show ?thesis
    by (simp add: process_events_def)
qed

text \<open>
  Claim C4: the events are loaded and none is left to summarize, so that every group has
  been driven, and the handler of \<open>POST /process-events\<close> sends nothing: it hands a
  \<open>Response\<close> object with the summary back to the framework.
\<close>

theorem process_events_success_sends_nothing:
  "process_events sample_env None settled_rows =
     (Returned_Response ''Successfully processed 0 events'', settled_rows)"
  by (simp add: process_events_def process_events_loop.simps settled_rows_def summarized_row_def
        show_nat.simps digit_def)

lemma eleven_unsummarized:
  "filter (\<lambda>r. translated_description r = None) (service_events eleven_rows) = eleven_events"
  by (simp add: eleven_rows_def eleven_events_def event_of_def)

lemma eleven_first_group_ids:
  "map (\<lambda>ev. Logged_event_error (event_id ev)) (take BATCH_SIZE eleven_events) =
     [Logged_event_error 1, Logged_event_error 2, Logged_event_error 3, Logged_event_error 4,
      Logged_event_error 5, Logged_event_error 6, Logged_event_error 7, Logged_event_error 8,
      Logged_event_error 9, Logged_event_error 10]"
  by (simp add: eleven_events_def BATCH_SIZE_def event_of_def)

text \<open>
  Claim C2, as stated, fails: of eleven unsummarized events the ten of the first group are
  attempted, and the failure of each is logged; the eleventh, in the next group, is not
  attempted, and the handler answers 500.
\<close>

theorem failed_event_stops_later_groups:
  "length eleven_events = 11
   \<and> event_id (last eleven_events) = 11
   \<and> process_events sample_env None eleven_rows =
        (Sent 500 ''Error while processing the events'',
         eleven_rows\<lparr>trace :=
           [Logged_event_error 1, Logged_event_error 2, Logged_event_error 3, Logged_event_error 4,
            Logged_event_error 5, Logged_event_error 6, Logged_event_error 7, Logged_event_error 8,
            Logged_event_error 9, Logged_event_error 10, Logged_error]\<rparr>)"
proof -
  have ne: "filter (\<lambda>r. translated_description r = None) (service_events eleven_rows) \<noteq> []"
    by (simp add: eleven_unsummarized eleven_events_def)
  have t0: "trace eleven_rows = []" by (simp add: eleven_rows_def)
  have "process_events sample_env None eleven_rows =
        (Sent 500 ''Error while processing the events'',
         eleven_rows\<lparr>trace :=
           [Logged_event_error 1, Logged_event_error 2, Logged_event_error 3, Logged_event_error 4,
            Logged_event_error 5, Logged_event_error 6, Logged_event_error 7, Logged_event_error 8,
            Logged_event_error 9, Logged_event_error 10, Logged_error]\<rparr>)"
    by (simp only: process_events_nonempty[OF ne] eleven_unsummarized eleven_first_group_ids t0)
       simp
  moreover have "length eleven_events = 11" "event_id (last eleven_events) = 11"
    by (simp_all add: eleven_events_def event_of_def)
  ultimately show ?thesis by simp
qed

text \<open>
  Claim C2, amended. For every non-empty set of unsummarized events selected by
  \<open>POST /process-events\<close>, \<open>processEvent\<close> is called on every event of a group that
  is driven, and a summarization that fails is logged with the event's identifier and
  rejected. A group with a failed summarization is the last one: no event of a later
  group is attempted, and the handler answers 500. As \<open>utils.js\<close> stands the first
  group is such a group.
\<close>

theorem failed_event_aborts_bulk_run:
  "(i < length events \<longrightarrow>
      process_events_loop e events i w =
        (Inl ''Error processing event'',
         w\<lparr>trace := trace w @
            map (\<lambda>ev. Logged_event_error (event_id ev)) (take BATCH_SIZE (drop i events))\<rparr>))
   \<and> (filter (\<lambda>r. translated_description r = None) (service_events w) \<noteq> [] \<longrightarrow>
        process_events e None w =
          (Sent 500 ''Error while processing the events'',
           w\<lparr>trace := trace w @
              map (\<lambda>ev. Logged_event_error (event_id ev))
                (take BATCH_SIZE (filter (\<lambda>r. translated_description r = None) (service_events w)))
              @ [Logged_error]\<rparr>))"
  using process_events_loop_group process_events_nonempty by blast

theorem failed_event_aborts_bulk_run_witness:
  "(0::nat) < length eleven_events
   \<and> filter (\<lambda>r. translated_description r = None) (service_events eleven_rows) = eleven_events
   \<and> eleven_events \<noteq> []
   \<and> process_events_loop sample_env eleven_events 0 eleven_rows =
        (Inl ''Error processing event'',
         eleven_rows\<lparr>trace :=
           [Logged_event_error 1, Logged_event_error 2, Logged_event_error 3, Logged_event_error 4,
            Logged_event_error 5, Logged_event_error 6, Logged_event_error 7, Logged_event_error 8,
            Logged_event_error 9, Logged_event_error 10]\<rparr>)
   \<and> fst (process_events sample_env None eleven_rows) = Sent 500 ''Error while processing the events''"
proof -
  have h1: "(0::nat) < length eleven_events" and h2: "eleven_events \<noteq> []"
    by (simp_all add: eleven_events_def)
  have t0: "trace eleven_rows = []" by (simp add: eleven_rows_def)
  note t = failed_event_aborts_bulk_run
             [where e = sample_env and w = eleven_rows and i = 0 and events = eleven_events]
  from t h1 h2 show ?thesis
    by (simp add: eleven_unsummarized eleven_first_group_ids t0)
qed

section \<open>Feed fan-out\<close>

lemma those_fetch_feeds_None:
  "list_ex (\<lambda>s. parseURL e (feed_url s) = None) serviceData \<Longrightarrow> those (fetch_feeds e serviceData) = None"
  by (induction serviceData) (auto simp: fetch_feeds_def split: option.splits)

lemma process_feeds_with_items:
  "process_feeds sample_env (Inr [\<lparr>service_ident = 1, feed_url = ''https://a.example/rss''\<rparr>]) world0 =
     Some (Sent 500 ''Error while processing the feeds'', world0\<lparr>trace := [Logged_error]\<rparr>)"
proof -
  have "utils_processBatch (rpc sample_env) 1 [item_of ''g1''] 10 world0 =
          Some (Inl ''supabase is not defined'', world0)"
    by (rule utils_processBatch_rejects_items) simp_all
  then show ?thesis
    by (simp add: process_feeds_def fetch_feeds_def sample_env_def sample_feed_def world0_def)
qed

text \<open>
  Claim C1, as stated, fails: of three services the second has an unreachable feed; the
  handler of \<open>POST /process-feeds\<close> answers 500 and ingests nothing, although the feeds
  of the first and the third service parse.
\<close>

theorem one_failed_feed_fails_all:
  "parseURL sample_env ''https://a.example/rss'' = Some [item_of ''g1'']
   \<and> parseURL sample_env ''https://b.example/rss'' = None
   \<and> parseURL sample_env ''https://c.example/rss'' = Some [item_of ''g3'']
   \<and> process_feeds sample_env (Inr three_services) world0 =
        Some (Sent 500 ''Error while processing the feeds'',
              \<lparr>service_events = [], trace = [Logged_error]\<rparr>)"
  by (simp add: process_feeds_def fetch_feeds_def three_services_def sample_env_def sample_feed_def
        world0_def)

text \<open>
  Claim C1, amended. When the list of services cannot be loaded, and also when the feed
  of any one service fails to fetch or parse, the handler of \<open>POST /process-feeds\<close>
  answers 500; no request for an item of any service has been issued and the table is
  as it was.
\<close>

theorem feed_failure_fails_the_request:
  "process_feeds e (Inl serviceError) w =
     Some (Sent 500 ''Error while processing the feeds'', w\<lparr>trace := trace w @ [Logged_error]\<rparr>)
   \<and> (list_ex (\<lambda>s. parseURL e (feed_url s) = None) serviceData \<longrightarrow>
        process_feeds e (Inr serviceData) w =
          Some (Sent 500 ''Error while processing the feeds'', w\<lparr>trace := trace w @ [Logged_error]\<rparr>))"
proof (intro conjI impI)
  show "process_feeds e (Inl serviceError) w =
     Some (Sent 500 ''Error while processing the feeds'', w\<lparr>trace := trace w @ [Logged_error]\<rparr>)"
    by (simp add: process_feeds_def)
next
  assume "list_ex (\<lambda>s. parseURL e (feed_url s) = None) serviceData"
  then have "those (fetch_feeds e serviceData) = None"
    by (rule those_fetch_feeds_None)
  then show "process_feeds e (Inr serviceData) w =
          Some (Sent 500 ''Error while processing the feeds'', w\<lparr>trace := trace w @ [Logged_error]\<rparr>)"
    by (simp add: process_feeds_def)
qed

theorem feed_failure_fails_the_request_witness:
  "list_ex (\<lambda>s. parseURL sample_env (feed_url s) = None) three_services
   \<and> process_feeds sample_env (Inl ''connection refused'') world0 =
        Some (Sent 500 ''Error while processing the feeds'', world0\<lparr>trace := [Logged_error]\<rparr>)
   \<and> process_feeds sample_env (Inr three_services) world0 =
        Some (Sent 500 ''Error while processing the feeds'', world0\<lparr>trace := [Logged_error]\<rparr>)"
proof -
  have h1: "list_ex (\<lambda>s. parseURL sample_env (feed_url s) = None) three_services"
    by (simp add: three_services_def sample_env_def sample_feed_def)
  have t0: "trace world0 = []" by (simp add: world0_def)
  note a = feed_failure_fails_the_request
             [where e = sample_env and serviceData = three_services and w = world0
                and serviceError = "''connection refused''"]
  from a h1 show ?thesis by (simp add: t0)
qed

section \<open>Feed item upsert\<close>

lemma same_key_refresh: "same_key a (refresh b r) = same_key a r"
  by (simp add: same_key_def refresh_def)

lemma structured_refresh: "structured (refresh b r) = structured r"
  by (simp add: structured_def refresh_def)

lemma filter_map_refresh:
  "filter (same_key a) (map (\<lambda>r. if same_key a r then refresh b r else r) tbl) =
     map (refresh b) (filter (same_key a) tbl)"
  by (induction tbl) (simp_all add: same_key_refresh)

lemma upsert_valid:
  assumes "p_guid a \<noteq> []" and "p_service_id a \<in> set known"
  shows "snd (upsert_service_event known a tbl) =
           (case filter (same_key a) tbl of
              [] \<Rightarrow> tbl @ [\<lparr>event_id = fresh_id tbl, service_id = p_service_id a, event_guid = p_guid a,
                      event_title = p_title a, description = p_description a, pub_date = p_pub_date a,
                      status = None, translated_description = None,
                      accumulated_time_minutes = None, severity = None\<rparr>]
            | r0 # rest \<Rightarrow> map (\<lambda>r. if same_key a r then refresh a r else r) tbl)"
  using assms by (simp add: upsert_service_event_def refresh_def split: list.splits)

lemma upsert_structured:
  "map structured (take (length tbl) (snd (upsert_service_event known a tbl))) = map structured tbl"
proof (cases "p_guid a \<noteq> [] \<and> p_service_id a \<in> set known")
  case False
  then show ?thesis by (auto simp: upsert_service_event_def)
next
  case True
  then have valid: "p_guid a \<noteq> []" "p_service_id a \<in> set known" by simp_all
  have kept: "map structured (map (\<lambda>r. if same_key a r then refresh a r else r) tbl) = map structured tbl"
    by (induction tbl) (simp_all add: structured_refresh)
  show ?thesis
  proof (cases "filter (same_key a) tbl")
    case Nil
    then show ?thesis by (simp add: upsert_valid[OF valid])
  next
    case (Cons r0 rest)
    then show ?thesis using kept by (simp add: upsert_valid[OF valid])
  qed
qed

lemma upsert_length: "length tbl \<le> length (snd (upsert_service_event known a tbl))"
  by (simp add: upsert_service_event_def split: list.splits)

lemma upsert_one_row:
  assumes "p_guid a \<noteq> []" and "p_service_id a \<in> set known"
    and "length (filter (same_key a) tbl) \<le> 1"
  shows "filter (same_key a) (snd (upsert_service_event known a tbl)) =
           (case filter (same_key a) tbl of
              [] \<Rightarrow> [\<lparr>event_id = fresh_id tbl, service_id = p_service_id a, event_guid = p_guid a,
                      event_title = p_title a, description = p_description a, pub_date = p_pub_date a,
                      status = None, translated_description = None,
                      accumulated_time_minutes = None, severity = None\<rparr>]
            | r0 # rest \<Rightarrow> [refresh a r0])"
proof (cases "filter (same_key a) tbl")
  case Nil
  then show ?thesis
    by (simp add: upsert_valid[OF assms(1,2)] same_key_def)
next
  case (Cons r0 rest)
  with assms(3) have "rest = []" by simp
  with Cons show ?thesis
    by (simp add: upsert_valid[OF assms(1,2)] filter_map_refresh)
qed

text \<open>
  Claim C5. Upserting an item for a service and then again an item with the same guid for
  the same service leaves exactly one row for the natural key (service, guid), which
  carries the title, the description and the publish timestamp of the later item; its
  structured fields are those the row had before, or null when the row is new; and an
  upsert changes the structured fields of no row. The table is taken to hold at most one
  row for the key before, and the item to satisfy the input constraints of the
  procedure.
\<close>

theorem upsert_twice_one_row:
  assumes "p_guid a \<noteq> []" and "p_service_id a \<in> set known"
    and "p_service_id b = p_service_id a" and "p_guid b = p_guid a"
    and "length (filter (same_key a) tbl) \<le> 1"
  shows "\<exists>r. filter (same_key a)
               (snd (upsert_service_event known b (snd (upsert_service_event known a tbl)))) = [r]
           \<and> event_title r = p_title b \<and> description r = p_description b \<and> pub_date r = p_pub_date b
           \<and> (case filter (same_key a) tbl of
                 [] \<Rightarrow> structured r = (None, None, None, None)
               | r0 # rest \<Rightarrow> event_id r = event_id r0 \<and> structured r = structured r0)
           \<and> map structured (take (length tbl)
                (snd (upsert_service_event known b (snd (upsert_service_event known a tbl))))) =
               map structured tbl"
proof -
  let ?t1 = "snd (upsert_service_event known a tbl)"
  let ?t2 = "snd (upsert_service_event known b ?t1)"
  have key: "same_key b = same_key a"
    using assms(3,4) by (simp add: same_key_def fun_eq_iff)
  have validb: "p_guid b \<noteq> []" "p_service_id b \<in> set known"
    using assms(1-4) by simp_all
  obtain r1 where one: "filter (same_key a) ?t1 = [r1]"
    and fields1: "(case filter (same_key a) tbl of
                     [] \<Rightarrow> structured r1 = (None, None, None, None)
                   | r0 # rest \<Rightarrow> event_id r1 = event_id r0 \<and> structured r1 = structured r0)"
    using upsert_one_row[OF assms(1,2,5)]
    by (cases "filter (same_key a) tbl") (simp_all add: structured_def refresh_def)
  from one have "length (filter (same_key b) ?t1) \<le> 1" by (simp add: key)
  from upsert_one_row[OF validb this] one
  have two: "filter (same_key a) ?t2 = [refresh b r1]" by (simp add: key)
  have fields2: "(case filter (same_key a) tbl of
                     [] \<Rightarrow> structured (refresh b r1) = (None, None, None, None)
                   | r0 # rest \<Rightarrow> event_id (refresh b r1) = event_id r0
                                  \<and> structured (refresh b r1) = structured r0)"
  proof -
    have "event_id (refresh b r1) = event_id r1" by (simp add: refresh_def)
    with fields1 show ?thesis by (simp add: structured_refresh split: list.splits)
  qed
  have "take (length tbl) ?t2 = take (length tbl) (take (length ?t1) ?t2)"
    using upsert_length[of tbl known a] by (simp add: min_def)
  then have "map structured (take (length tbl) ?t2) =
               take (length tbl) (map structured (take (length ?t1) ?t2))"
    by (simp add: take_map)
  also have "\<dots> = take (length tbl) (map structured ?t1)"
    by (simp only: upsert_structured)
  also have "\<dots> = map structured (take (length tbl) ?t1)"
    by (simp add: take_map)
  also have "\<dots> = map structured tbl"
    by (rule upsert_structured)
  finally have frame: "map structured (take (length tbl) ?t2) = map structured tbl" .
  have sel: "event_title (refresh b r1) = p_title b" "description (refresh b r1) = p_description b"
    "pub_date (refresh b r1) = p_pub_date b"
    by (simp_all add: refresh_def)
  from two sel fields2 frame show ?thesis
    by (intro exI[of _ "refresh b r1"]) simp
qed

theorem upsert_twice_one_row_witness:
  "p_guid (upsert_call 1 (item_of ''g1'')) \<noteq> []
   \<and> p_service_id (upsert_call 1 (item_of ''g1'')) \<in> set [1, 2, 3]
   \<and> p_service_id (upsert_call 1 later_item) = p_service_id (upsert_call 1 (item_of ''g1''))
   \<and> p_guid (upsert_call 1 later_item) = p_guid (upsert_call 1 (item_of ''g1''))
   \<and> length (filter (same_key (upsert_call 1 (item_of ''g1''))) [summarized_row]) \<le> 1
   \<and> (\<exists>r. filter (same_key (upsert_call 1 (item_of ''g1'')))
              (snd (upsert_service_event [1, 2, 3] (upsert_call 1 later_item)
                 (snd (upsert_service_event [1, 2, 3] (upsert_call 1 (item_of ''g1'')) [summarized_row])))) = [r]
          \<and> event_title r = ''Incident resolved''
          \<and> event_id r = 7
          \<and> structured r = (Some ''resolved'', Some ''<p>Resolved</p>'', Some 5, Some ''minor''))"
proof -
  have h1: "p_guid (upsert_call 1 (item_of ''g1'')) \<noteq> []"
    and h2: "p_service_id (upsert_call 1 (item_of ''g1'')) \<in> set [1, 2, 3]"
    and h3: "p_service_id (upsert_call 1 later_item) = p_service_id (upsert_call 1 (item_of ''g1''))"
    and h4: "p_guid (upsert_call 1 later_item) = p_guid (upsert_call 1 (item_of ''g1''))"
    and h5: "length (filter (same_key (upsert_call 1 (item_of ''g1''))) [summarized_row]) \<le> 1"
    by (simp_all add: upsert_call_def item_of_def later_item_def)
  have before: "filter (same_key (upsert_call 1 (item_of ''g1''))) [summarized_row] = [summarized_row]"
    by (simp add: same_key_def upsert_call_def item_of_def summarized_row_def)
  have vals: "p_title (upsert_call 1 later_item) = ''Incident resolved''"
    "event_id summarized_row = 7"
    "structured summarized_row = (Some ''resolved'', Some ''<p>Resolved</p>'', Some 5, Some ''minor'')"
    by (simp_all add: upsert_call_def later_item_def summarized_row_def structured_def)
  from upsert_twice_one_row[OF h1 h2 h3 h4 h5]
  have "\<exists>r. filter (same_key (upsert_call 1 (item_of ''g1'')))
              (snd (upsert_service_event [1, 2, 3] (upsert_call 1 later_item)
                 (snd (upsert_service_event [1, 2, 3] (upsert_call 1 (item_of ''g1'')) [summarized_row])))) = [r]
          \<and> event_title r = ''Incident resolved''
          \<and> event_id r = 7
          \<and> structured r = (Some ''resolved'', Some ''<p>Resolved</p>'', Some 5, Some ''minor'')"
    by (simp only: before vals list.case) blast
  with h1 h2 h3 h4 h5 show ?thesis by blast
qed

end
